theory Spec2Isabelle
  imports Main "HOL-Library.Sublist"
begin

section \<open>The refresh ticker: \<open>PlotRefreshTimingThread\<close> (visualization_functions.py)\<close>

text \<open>
  The thread object has one field of its own, \<open>exiting\<close>, set to \<open>False\<close> by
  \<open>__init__\<close> and to \<open>True\<close> by \<open>__del__\<close>.
\<close>

record PlotRefreshTimingThread =
  exiting :: bool

definition init_thread :: PlotRefreshTimingThread where
  "init_thread = \<lparr> exiting = False \<rparr>"

text \<open>
  What the thread does to the outside world: \<open>time.sleep(0.25)\<close> is a request to
  suspend for 0.25 s, recorded in milliseconds, and \<open>plotRefreshTimingSignal.emit()\<close>
  is the emission of a signal declared as \<open>pyqtSignal()\<close>, with no argument; the
  constructor \<open>Emit\<close> therefore has no argument either.
\<close>

datatype tick_event = Sleep nat | Emit

text \<open>One pass through the body of the loop in \<open>run\<close>.\<close>

definition run_body :: "tick_event list" where
  "run_body = [Sleep 250, Emit]"

text \<open>
  \<open>run\<close> is \<open>while True: time.sleep(0.25); self.plotRefreshTimingSignal.emit()\<close>.
  The loop may run forever, so the model takes fuel: the number of iterations it is
  allowed. The first component is the trace of what has happened so far; the second is
  \<open>Some self\<close> when \<open>run\<close> has returned and \<open>None\<close> when the fuel ran out with
  the loop still going. The loop condition \<open>run_condition\<close> is the constant \<open>True\<close>
  of the source: the field \<open>exiting\<close> is not read.
\<close>

definition run_condition :: "PlotRefreshTimingThread \<Rightarrow> bool" where
  "run_condition self = True"

fun run :: "nat \<Rightarrow> PlotRefreshTimingThread \<Rightarrow> tick_event list \<times> PlotRefreshTimingThread option" where
  "run 0 self = ([], None)"
| "run (Suc n) self =
     (if run_condition self
      then (case run n self of (tr, r) \<Rightarrow> (run_body @ tr, r))
      else ([], Some self))"

text \<open>
  \<open>__del__\<close> is \<open>self.exiting = True; self.wait()\<close>. \<open>wait\<close> blocks until \<open>run\<close>
  has returned, so \<open>__del__\<close> returns (with the updated object) exactly when \<open>run\<close>,
  running on the object whose flag is now set, does; the ticks emitted while it waits
  are the first component.
\<close>

definition del_thread :: "nat \<Rightarrow> PlotRefreshTimingThread \<Rightarrow> tick_event list \<times> PlotRefreshTimingThread option" where
  "del_thread fuel self =
     (let self' = self\<lparr>exiting := True\<rparr>
      in case run fuel self' of (tr, r) \<Rightarrow> (tr, map_option (\<lambda>_. self') r))"

section \<open>The shared data store (\<open>datastore.DataStore\<close>)\<close>

text \<open>
  \<open>visualization_functions.py\<close> imports \<open>DataStore\<close> from \<open>datastore\<close>, a module
  of this repository whose source file is missing. The store is therefore modelled from
  sections 3 and 4.1 of the specification.
\<close>

datatype series_name =
  Time | Distance | Velocity | TrackMaxVelocity | Acceleration | MotorPower | BatteryPower

definition all_series :: "series_name list" where
  "all_series = [Time, Distance, Velocity, TrackMaxVelocity, Acceleration, MotorPower, BatteryPower]"

datatype error = OutOfRangeError

text \<open>
  Modelled from the spec: the class \<open>DataStore\<close> of \<open>datastore.py\<close> is missing. Its
  fields are, in the words of section 3, \<open>series[name]\<close>, an ordered append-only sequence
  per tracked quantity, and \<open>simulation_index\<close>, the last index at which a sample is
  fully written across all series. The samples are opaque to the store, hence the type
  parameter.
\<close>

record 'v DataStore =
  series :: "series_name \<Rightarrow> 'v list"
  simulation_index :: int

text \<open>
  Modelled from the spec: the store is created empty, with index \<open>-1\<close> ("no data").
\<close>

definition empty_store :: "'v DataStore" where
  "empty_store = \<lparr> series = (\<lambda>_. []), simulation_index = - 1 \<rparr>"

text \<open>
  Modelled from the spec: \<open>current_index()\<close> returns \<open>simulation_index\<close> at the time
  of the call.
\<close>

definition current_index :: "'v DataStore \<Rightarrow> int" where
  "current_index ds = simulation_index ds"

text \<open>
  Modelled from the spec: \<open>read_field(index, series_name)\<close> fails with
  \<open>OutOfRangeError\<close> if \<open>index > simulation_index\<close> or \<open>index < 0\<close> and otherwise
  returns the value at that position. A position at or below \<open>simulation_index\<close> that
  holds no value cannot occur in a store that satisfies the invariant of section 3
  (\<open>store_inv\<close> below); rather than leave the result unspecified there, the model lets
  the read fail with the one error the component has.
\<close>

definition read_field :: "int \<Rightarrow> series_name \<Rightarrow> 'v DataStore \<Rightarrow> error + 'v" where
  "read_field index name ds =
     (if index > simulation_index ds \<or> index < 0 then Inl OutOfRangeError
      else if nat index < length (series ds name) then Inr (series ds name ! nat index)
      else Inl OutOfRangeError)"

text \<open>
  Modelled from the spec: \<open>begin_record()\<close> prepares the write of a new sample at
  \<open>simulation_index + 1\<close> and must not advance \<open>simulation_index\<close>. Nothing in the
  data model of section 3 records the preparation, so the two fields are left as they are.
\<close>

definition begin_record :: "'v DataStore \<Rightarrow> 'v DataStore" where
  "begin_record ds = ds"

text \<open>
  Writing position \<open>k\<close> of an append-only sequence: an entry already there (the partial
  tail) is overwritten, position \<open>length xs\<close> is appended, and a position further out
  does not exist yet and is left alone.
\<close>

definition put :: "'a list \<Rightarrow> nat \<Rightarrow> 'a \<Rightarrow> 'a list" where
  "put xs k v = (if k < length xs then xs[k := v] else if k = length xs then xs @ [v] else xs)"

text \<open>
  Modelled from the spec: \<open>write_field(index, series_name, value)\<close> writes one series'
  value for the in-progress index, \<open>simulation_index + 1\<close>. Entries at or below
  \<open>simulation_index\<close> are immutable and no other position is in progress, so a call
  with any other index changes nothing.
\<close>

definition write_field :: "int \<Rightarrow> series_name \<Rightarrow> 'v \<Rightarrow> 'v DataStore \<Rightarrow> 'v DataStore" where
  "write_field index name v ds =
     (if index = simulation_index ds + 1
      then ds\<lparr>series := (series ds)(name := put (series ds name) (nat index) v)\<rparr>
      else ds)"

text \<open>
  Modelled from the spec: \<open>commit_record()\<close> advances \<open>simulation_index\<close> to the newly
  completed position.
\<close>

definition commit_record :: "'v DataStore \<Rightarrow> 'v DataStore" where
  "commit_record ds = ds\<lparr>simulation_index := simulation_index ds + 1\<rparr>"

text \<open>The producer's calls, as values, and a sequence of them run in order.\<close>

datatype 'v store_op = BeginRecord | WriteField int series_name 'v | CommitRecord

fun apply_op :: "'v store_op \<Rightarrow> 'v DataStore \<Rightarrow> 'v DataStore" where
  "apply_op BeginRecord ds = begin_record ds"
| "apply_op (WriteField i name v) ds = write_field i name v ds"
| "apply_op CommitRecord ds = commit_record ds"

fun run_ops :: "'v store_op list \<Rightarrow> 'v DataStore \<Rightarrow> 'v DataStore" where
  "run_ops [] ds = ds"
| "run_ops (op # ops) ds = run_ops ops (apply_op op ds)"

text \<open>
  The invariant of section 3: for all \<open>i \<le> simulation_index\<close> every series has a value
  at position \<open>i\<close>; the index of the empty store is \<open>-1\<close>.
\<close>

definition store_inv :: "'v DataStore \<Rightarrow> bool" where
  "store_inv ds \<longleftrightarrow>
     - 1 \<le> simulation_index ds \<and>
     list_all (\<lambda>name. simulation_index ds < int (length (series ds name))) all_series"

section \<open>The simulation worker (\<open>simulation_functions.SimulationThread\<close>)\<close>

text \<open>
  Modelled from the spec: \<open>simulation_functions.py\<close> is missing. Section 4.2 gives the
  states of the worker and the transitions; section 6 gives the control surface
  \<open>start()\<close>, \<open>pause()\<close>, \<open>stop()\<close>: \<open>Idle\<close> goes to \<open>Running\<close> on start; \<open>Running\<close>
  goes to \<open>Paused\<close> on pause and is resumable to \<open>Running\<close>; stop goes to \<open>Stopped\<close>
  from any state, and \<open>Stopped\<close> is terminal. A command for which no transition is
  defined is a no-op (section 7).
\<close>

datatype worker_state = Idle | Running | Paused | Stopped

fun start :: "worker_state \<Rightarrow> worker_state" where
  "start Idle = Running"
| "start Paused = Running"
| "start Running = Running"
| "start Stopped = Stopped"

fun pause :: "worker_state \<Rightarrow> worker_state" where
  "pause Running = Paused"
| "pause Idle = Idle"
| "pause Paused = Paused"
| "pause Stopped = Stopped"

fun stop :: "worker_state \<Rightarrow> worker_state" where
  "stop _ = Stopped"

datatype command = Start | Pause | Stop

fun control :: "command \<Rightarrow> worker_state \<Rightarrow> worker_state" where
  "control Start s = start s"
| "control Pause s = pause s"
| "control Stop s = stop s"

text \<open>
  Modelled from the spec: in \<open>Running\<close> the worker repeats \<open>begin_record()\<close>,
  \<open>write_field()\<close> for every series, \<open>commit_record()\<close>. Every call on the store is
  atomic (section 4.1: mutation is mutually exclusive with reads), so the worker is a
  machine that makes one call per step; a reader can look at the store between any two
  steps. \<open>phase\<close> says where in the cycle the worker is: \<open>Between\<close> two records, or
  \<open>Writing names\<close> with the series still to be written for the record in progress.
  The argument \<open>sample\<close> is the physics step's output, opaque here.
\<close>

datatype phase = Between | Writing "series_name list"

record 'v producer =
  store :: "'v DataStore"
  phase :: phase

definition producer_init :: "'v producer" where
  "producer_init = \<lparr> store = empty_store, phase = Between \<rparr>"

fun worker_step :: "(series_name \<Rightarrow> 'v) \<Rightarrow> 'v producer \<Rightarrow> 'v producer" where
  "worker_step sample p =
     (case phase p of
        Between \<Rightarrow> \<lparr> store = begin_record (store p), phase = Writing all_series \<rparr>
      | Writing (name # names) \<Rightarrow>
          \<lparr> store = write_field (current_index (store p) + 1) name (sample name) (store p),
            phase = Writing names \<rparr>
      | Writing [] \<Rightarrow> \<lparr> store = commit_record (store p), phase = Between \<rparr>)"

fun worker_steps :: "(series_name \<Rightarrow> 'v) list \<Rightarrow> 'v producer \<Rightarrow> 'v producer" where
  "worker_steps [] p = p"
| "worker_steps (sample # samples) p = worker_steps samples (worker_step sample p)"

text \<open>
  What holds between any two steps of the worker: the store satisfies its invariant,
  and every series already written for the record in progress has its value at
  \<open>simulation_index + 1\<close>.
\<close>

definition producer_inv :: "'v producer \<Rightarrow> bool" where
  "producer_inv p \<longleftrightarrow>
     store_inv (store p) \<and>
     (case phase p of
        Between \<Rightarrow> True
      | Writing names \<Rightarrow>
          list_all (\<lambda>name. name \<in> set names \<or>
                      simulation_index (store p) + 1 < int (length (series (store p) name)))
            all_series)"

section \<open>The refresh handler: \<open>MainWindow.signalPlotRefresh\<close> (visualization_functions.py)\<close>

text \<open>
  Modelled from the spec: the getters of \<open>DataStore\<close> that the handler calls are in the
  missing \<open>datastore.py\<close>. \<open>get_simulation_index\<close> is \<open>current_index()\<close> and each
  \<open>get_..._at_index\<close> is \<open>read_field\<close> on its series.
\<close>

definition get_simulation_index :: "'v DataStore \<Rightarrow> int" where
  "get_simulation_index ds = current_index ds"

definition get_time_at_index :: "'v DataStore \<Rightarrow> int \<Rightarrow> error + 'v" where
  "get_time_at_index ds index = read_field index Time ds"

definition get_distance_at_index :: "'v DataStore \<Rightarrow> int \<Rightarrow> error + 'v" where
  "get_distance_at_index ds index = read_field index Distance ds"

definition get_velocity_at_index :: "'v DataStore \<Rightarrow> int \<Rightarrow> error + 'v" where
  "get_velocity_at_index ds index = read_field index Velocity ds"

definition get_track_max_velocity_at_index :: "'v DataStore \<Rightarrow> int \<Rightarrow> error + 'v" where
  "get_track_max_velocity_at_index ds index = read_field index TrackMaxVelocity ds"

definition get_acceleration_at_index :: "'v DataStore \<Rightarrow> int \<Rightarrow> error + 'v" where
  "get_acceleration_at_index ds index = read_field index Acceleration ds"

definition get_motor_power_at_index :: "'v DataStore \<Rightarrow> int \<Rightarrow> error + 'v" where
  "get_motor_power_at_index ds index = read_field index MotorPower ds"

definition get_battery_power_at_index :: "'v DataStore \<Rightarrow> int \<Rightarrow> error + 'v" where
  "get_battery_power_at_index ds index = read_field index BatteryPower ds"

text \<open>
  Everything the handler does is a call: on the store, or on a widget. The model records
  them in order. The titles, names and pens given to \<open>plot\<close> are left out.
\<close>

datatype spinbox =
  spinboxTime | spinboxDistance | spinboxVelocity | spinboxAcceleration
  | spinboxMotorPower | spinboxBatteryPower

datatype plot = p1 | p2 | p3 | p4 | p5 | p6

datatype 'v effect =
    Call_get_simulation_index
  | Call_get_at_index series_name int
  | SetText int
  | SetValue spinbox 'v
  | ShowPlot plot
  | HidePlot plot
  | PlotXY plot "int list" "'v list"

text \<open>
  A piece of the handler yields the calls it made and either its value or the exception
  that ended it. The handler has no \<open>try\<close>, so an exception raised by a call ends
  everything after it: \<open>bind_act\<close> runs the continuation only on \<open>Inr\<close>.
\<close>

type_synonym ('v, 'a) act = "(error + 'a) \<times> 'v effect list"

definition ret :: "'a \<Rightarrow> ('v, 'a) act" where
  "ret a = (Inr a, [])"

definition bind_act :: "('v, 'a) act \<Rightarrow> ('a \<Rightarrow> ('v, 'b) act) \<Rightarrow> ('v, 'b) act" where
  "bind_act m f =
     (case m of
        (Inl e, log) \<Rightarrow> (Inl e, log)
      | (Inr a, log) \<Rightarrow> (case f a of (r, log') \<Rightarrow> (r, log @ log')))"

definition call :: "'v effect \<Rightarrow> error + 'a \<Rightarrow> ('v, 'a) act" where
  "call e r = (r, [e])"

definition gui :: "'v effect \<Rightarrow> ('v, unit) act" where
  "gui e = (Inr (), [e])"

text \<open>The checkboxes the handler reads.\<close>

record checkboxes =
  checkboxDistance :: bool
  checkboxVelocity :: bool
  checkboxAcceleration :: bool
  checkboxMotorPower :: bool
  checkboxBatteryPower :: bool

text \<open>The local lists \<open>_time\<close>, ..., \<open>_battery_energy\<close> of the handler.\<close>

record 'v plot_lists =
  l_time :: "'v list"
  l_distance :: "'v list"
  l_velocity :: "'v list"
  l_max_velocity :: "'v list"
  l_acceleration :: "'v list"
  l_motor_power :: "'v list"
  l_battery_power :: "'v list"
  l_battery_energy :: "'v list"

definition empty_lists :: "'v plot_lists" where
  "empty_lists = \<lparr> l_time = [], l_distance = [], l_velocity = [], l_max_velocity = [],
     l_acceleration = [], l_motor_power = [], l_battery_power = [], l_battery_energy = [] \<rparr>"

text \<open>Python's \<open>range(n)\<close>: \<open>0, ..., n - 1\<close>, empty when \<open>n \<le> 0\<close>.\<close>

definition range_py :: "int \<Rightarrow> int list" where
  "range_py n = [0..n - 1]"

text \<open>
  Lines 236 to 252: the six current values, each read at \<open>current_sim_index\<close> and put
  into its spin box.
\<close>

definition refresh_fields :: "'v DataStore \<Rightarrow> int \<Rightarrow> ('v, unit) act" where
  "refresh_fields ds current_sim_index =
     bind_act (call (Call_get_at_index Time current_sim_index)
                 (get_time_at_index ds current_sim_index)) (\<lambda>time.
     bind_act (gui (SetValue spinboxTime time)) (\<lambda>_.
     bind_act (call (Call_get_at_index Distance current_sim_index)
                 (get_distance_at_index ds current_sim_index)) (\<lambda>distance.
     bind_act (gui (SetValue spinboxDistance distance)) (\<lambda>_.
     bind_act (call (Call_get_at_index Velocity current_sim_index)
                 (get_velocity_at_index ds current_sim_index)) (\<lambda>velocity.
     bind_act (gui (SetValue spinboxVelocity velocity)) (\<lambda>_.
     bind_act (call (Call_get_at_index Acceleration current_sim_index)
                 (get_acceleration_at_index ds current_sim_index)) (\<lambda>acceleration.
     bind_act (gui (SetValue spinboxAcceleration acceleration)) (\<lambda>_.
     bind_act (call (Call_get_at_index MotorPower current_sim_index)
                 (get_motor_power_at_index ds current_sim_index)) (\<lambda>motor_power.
     bind_act (gui (SetValue spinboxMotorPower motor_power)) (\<lambda>_.
     bind_act (call (Call_get_at_index BatteryPower current_sim_index)
                 (get_battery_power_at_index ds current_sim_index)) (\<lambda>battery_power.
     gui (SetValue spinboxBatteryPower battery_power))))))))))))"

text \<open>
  Lines 273 to 278: the body of \<open>for z in x\<close>. Six reads, each appended to its list; the
  append to \<open>_battery_power\<close> is commented out in the source and so is absent here.
\<close>

definition loop_body :: "'v DataStore \<Rightarrow> int \<Rightarrow> 'v plot_lists \<Rightarrow> ('v, 'v plot_lists) act" where
  "loop_body ds z ls =
     bind_act (call (Call_get_at_index Time z) (get_time_at_index ds z)) (\<lambda>v1.
     bind_act (call (Call_get_at_index Distance z) (get_distance_at_index ds z)) (\<lambda>v2.
     bind_act (call (Call_get_at_index Velocity z) (get_velocity_at_index ds z)) (\<lambda>v3.
     bind_act (call (Call_get_at_index TrackMaxVelocity z)
                 (get_track_max_velocity_at_index ds z)) (\<lambda>v4.
     bind_act (call (Call_get_at_index Acceleration z) (get_acceleration_at_index ds z)) (\<lambda>v5.
     bind_act (call (Call_get_at_index MotorPower z) (get_motor_power_at_index ds z)) (\<lambda>v6.
     ret (ls\<lparr> l_time := l_time ls @ [v1],
              l_distance := l_distance ls @ [v2],
              l_velocity := l_velocity ls @ [v3],
              l_max_velocity := l_max_velocity ls @ [v4],
              l_acceleration := l_acceleration ls @ [v5],
              l_motor_power := l_motor_power ls @ [v6] \<rparr>)))))))"

fun build_lists :: "'v DataStore \<Rightarrow> int list \<Rightarrow> 'v plot_lists \<Rightarrow> ('v, 'v plot_lists) act" where
  "build_lists ds [] ls = ret ls"
| "build_lists ds (z # zs) ls = bind_act (loop_body ds z ls) (build_lists ds zs)"

text \<open>
  Lines 293 to 326: the time plot, then one plot per checked box, shown and drawn, or
  hidden.
\<close>

definition refresh_plots :: "checkboxes \<Rightarrow> int list \<Rightarrow> 'v plot_lists \<Rightarrow> ('v, unit) act" where
  "refresh_plots cb x ls =
     bind_act (gui (PlotXY p1 x (l_time ls))) (\<lambda>_.
     bind_act (if checkboxDistance cb
               then bind_act (gui (ShowPlot p2)) (\<lambda>_. gui (PlotXY p2 x (l_distance ls)))
               else gui (HidePlot p2)) (\<lambda>_.
     bind_act (if checkboxVelocity cb
               then bind_act (gui (ShowPlot p3)) (\<lambda>_.
                    bind_act (gui (PlotXY p3 x (l_max_velocity ls))) (\<lambda>_.
                    gui (PlotXY p3 x (l_velocity ls))))
               else gui (HidePlot p3)) (\<lambda>_.
     bind_act (if checkboxAcceleration cb
               then bind_act (gui (ShowPlot p4)) (\<lambda>_. gui (PlotXY p4 x (l_acceleration ls)))
               else gui (HidePlot p4)) (\<lambda>_.
     bind_act (if checkboxMotorPower cb
               then bind_act (gui (ShowPlot p5)) (\<lambda>_. gui (PlotXY p5 x (l_motor_power ls)))
               else gui (HidePlot p5)) (\<lambda>_.
     (if checkboxBatteryPower cb
      then bind_act (gui (ShowPlot p6)) (\<lambda>_. gui (PlotXY p6 x (l_battery_power ls)))
      else gui (HidePlot p6)))))))"

text \<open>
  The handler. \<open>current_sim_index\<close> is the store's index minus one (line 231), shown in
  the text box; \<open>x\<close> is \<open>[z+1 for z in range(current_sim_index)]\<close> (line 260).
\<close>

definition signalPlotRefresh :: "'v DataStore \<Rightarrow> checkboxes \<Rightarrow> ('v, unit) act" where
  "signalPlotRefresh ds cb =
     bind_act (call Call_get_simulation_index (Inr (get_simulation_index ds))) (\<lambda>index.
     let current_sim_index = index - 1 in
     bind_act (gui (SetText current_sim_index)) (\<lambda>_.
     bind_act (refresh_fields ds current_sim_index) (\<lambda>_.
     let x = map (\<lambda>z. z + 1) (range_py current_sim_index) in
     bind_act (build_lists ds x empty_lists) (\<lambda>ls.
     refresh_plots cb x ls))))"

text \<open>What is read off a finished cycle: the calls of one kind.\<close>

definition index_queries :: "'v effect list \<Rightarrow> 'v effect list" where
  "index_queries log = filter (\<lambda>e. e = Call_get_simulation_index) log"

fun read_indices :: "'v effect list \<Rightarrow> int list" where
  "read_indices [] = []"
| "read_indices (Call_get_at_index name i # es) = i # read_indices es"
| "read_indices (e # es) = read_indices es"

fun plots_of :: "plot \<Rightarrow> 'v effect list \<Rightarrow> (int list \<times> 'v list) list" where
  "plots_of p [] = []"
| "plots_of p (PlotXY q x y # es) = (if q = p then (x, y) # plots_of p es else plots_of p es)"
| "plots_of p (e # es) = plots_of p es"

section \<open>Auxiliary definitions for the proofs\<close>

text \<open>The value a series holds at a position, when it holds one.\<close>

definition read_at :: "'v DataStore \<Rightarrow> series_name \<Rightarrow> int \<Rightarrow> 'v" where
  "read_at ds name i = series ds name ! nat i"

text \<open>The calls of lines 236 to 252 when every read succeeds.\<close>

definition fields_calls :: "'v DataStore \<Rightarrow> int \<Rightarrow> 'v effect list" where
  "fields_calls ds c =
     [Call_get_at_index Time c, SetValue spinboxTime (read_at ds Time c),
      Call_get_at_index Distance c, SetValue spinboxDistance (read_at ds Distance c),
      Call_get_at_index Velocity c, SetValue spinboxVelocity (read_at ds Velocity c),
      Call_get_at_index Acceleration c, SetValue spinboxAcceleration (read_at ds Acceleration c),
      Call_get_at_index MotorPower c, SetValue spinboxMotorPower (read_at ds MotorPower c),
      Call_get_at_index BatteryPower c, SetValue spinboxBatteryPower (read_at ds BatteryPower c)]"

text \<open>The calls of one pass through the loop, and the lists after passes for \<open>zs\<close>.\<close>

definition loop_calls :: "int \<Rightarrow> 'v effect list" where
  "loop_calls z =
     [Call_get_at_index Time z, Call_get_at_index Distance z, Call_get_at_index Velocity z,
      Call_get_at_index TrackMaxVelocity z, Call_get_at_index Acceleration z,
      Call_get_at_index MotorPower z]"

definition appended :: "'v DataStore \<Rightarrow> int list \<Rightarrow> 'v plot_lists \<Rightarrow> 'v plot_lists" where
  "appended ds zs ls =
     ls\<lparr> l_time := l_time ls @ map (read_at ds Time) zs,
         l_distance := l_distance ls @ map (read_at ds Distance) zs,
         l_velocity := l_velocity ls @ map (read_at ds Velocity) zs,
         l_max_velocity := l_max_velocity ls @ map (read_at ds TrackMaxVelocity) zs,
         l_acceleration := l_acceleration ls @ map (read_at ds Acceleration) zs,
         l_motor_power := l_motor_power ls @ map (read_at ds MotorPower) zs \<rparr>"

text \<open>
  A stretch of the log that holds no query of the index, reads only at indices up to
  \<open>k\<close>, and draws neither the time plot nor the battery power plot.
\<close>

definition quiet :: "int \<Rightarrow> 'v effect list \<Rightarrow> bool" where
  "quiet k log \<longleftrightarrow>
     index_queries log = [] \<and> list_all (\<lambda>i. i \<le> k) (read_indices log)
     \<and> plots_of p1 log = [] \<and> plots_of p6 log = []"

text \<open>
  Concrete inputs. \<open>scenario_store\<close> is the store of the scenario of section 8: five
  committed records, every series \<open>[0,1,2,3,4]\<close>, index 4. \<open>one_record_store\<close> holds
  one committed record. \<open>tail_store\<close> is the scenario's store after the worker has
  written the time of a sixth record and not yet committed it. \<open>one_record_ops\<close> and \<open>eight_samples\<close> drive the store and
  the worker.
\<close>

definition scenario_store :: "int DataStore" where
  "scenario_store = \<lparr> series = (\<lambda>_. [0, 1, 2, 3, 4]), simulation_index = 4 \<rparr>"

definition one_record_store :: "int DataStore" where
  "one_record_store = \<lparr> series = (\<lambda>_. [0]), simulation_index = 0 \<rparr>"


definition battery_checked :: checkboxes where
  "battery_checked = \<lparr> checkboxDistance = False, checkboxVelocity = False,
     checkboxAcceleration = False, checkboxMotorPower = False, checkboxBatteryPower = True \<rparr>"

definition one_record_ops :: "int store_op list" where
  "one_record_ops = [BeginRecord, WriteField 0 Time 5, CommitRecord]"

definition eight_samples :: "(series_name \<Rightarrow> int) list" where
  "eight_samples = [\<lambda>_. 7, \<lambda>_. 7, \<lambda>_. 7, \<lambda>_. 7, \<lambda>_. 7, \<lambda>_. 7, \<lambda>_. 7, \<lambda>_. 7]"

section \<open>Theorems\<close>

lemma run_unfold: "run n self = (concat (replicate n run_body), None)"
  by (induction n) (simp_all add: run_condition_def)

lemma count_emit_replicate:
  "length (filter (\<lambda>e. e = Emit) (concat (replicate n run_body))) = n"
  by (induction n) (simp_all add: run_body_def)

subsection \<open>The ticker\<close>

lemma snd_bind_call_Inr: "snd (bind_act (call e (Inr a)) f) = e # snd (f a)"
  by (simp add: bind_act_def call_def split: prod.splits)

text \<open>
  C2. The claim: once the exiting flag is set the processing loop of the ticker ends, and
  the stop call, which joins it, returns with no tick delivered afterwards. The code at
  the input "flag set": \<open>run\<close> on a thread object whose \<open>exiting\<close> is \<open>True\<close> has not
  returned after \<open>n\<close> iterations, whatever \<open>n\<close> is, and has gone through the loop body
  \<open>n\<close> times; \<open>__del__\<close>, which sets the flag and waits, has not returned either, and
  \<open>n\<close> ticks have been emitted while it waited.
\<close>

theorem stop_flag_is_never_read:
  "run n (self\<lparr>exiting := True\<rparr>) = (concat (replicate n run_body), None)
   \<and> snd (del_thread n self) = None
   \<and> length (filter (\<lambda>e. e = Emit) (fst (del_thread n self))) = n"
  by (simp add: del_thread_def run_unfold count_emit_replicate)

text \<open>
  C6. Once started, the ticker repeats: suspend for 250 ms, then emit a tick. After \<open>n\<close>
  iterations the trace is \<open>n\<close> times "sleep 250, emit" and the loop is still running.
  The tick has no payload (\<open>Emit\<close> has no argument), and the consumer pulls the
  current index itself: the first call of every refresh cycle is the query of the
  store's index.
\<close>

theorem ticker_period_and_payload:
  "fst (run n self) = concat (replicate n [Sleep 250, Emit])
   \<and> snd (run n self) = None
   \<and> (\<exists>log. snd (signalPlotRefresh ds cb) = Call_get_simulation_index # log)"
  by (simp add: run_unfold run_body_def signalPlotRefresh_def snd_bind_call_Inr)

subsection \<open>The worker's control surface\<close>

text \<open>
  C9. The control operations over the states \<open>Idle\<close>, \<open>Running\<close>, \<open>Paused\<close>,
  \<open>Stopped\<close>: \<open>start\<close> in \<open>Running\<close> changes nothing; \<open>stop\<close> leads to \<open>Stopped\<close>
  from every state; no command leaves \<open>Stopped\<close>; and every command is idempotent.
\<close>

theorem worker_control_idempotent:
  "start Running = Running
   \<and> stop s = Stopped
   \<and> control c Stopped = Stopped
   \<and> control c (control c s) = control c s"
  by (cases c; cases s) simp_all

subsection \<open>The store\<close>

lemma set_all_series: "set all_series = UNIV"
proof -
  have "name \<in> set all_series" for name
    by (cases name) (simp_all add: all_series_def)
  then show ?thesis by blast
qed

lemma list_all_all_series: "list_all P all_series \<longleftrightarrow> (\<forall>name. P name)"
  using set_all_series by (auto simp: list_all_iff)

lemma store_inv_length:
  "store_inv ds \<Longrightarrow> simulation_index ds < int (length (series ds name))"
  using set_all_series by (auto simp: store_inv_def list_all_iff)

lemma simulation_index_apply_op:
  "simulation_index ds \<le> simulation_index (apply_op op ds)"
  by (cases op) (simp_all add: begin_record_def write_field_def commit_record_def)

lemma simulation_index_run_ops:
  "simulation_index ds \<le> simulation_index (run_ops ops ds)"
proof (induction ops arbitrary: ds)
  case Nil
  then show ?case by simp
next
  case (Cons op ops)
  have "simulation_index ds \<le> simulation_index (apply_op op ds)"
    by (rule simulation_index_apply_op)
  also have "\<dots> \<le> simulation_index (run_ops ops (apply_op op ds))"
    by (rule Cons.IH)
  finally show ?case by simp
qed

lemma run_ops_append: "run_ops (xs @ ys) ds = run_ops ys (run_ops xs ds)"
  by (induction xs arbitrary: ds) simp_all

lemma put_nth: "i < k \<Longrightarrow> i < length xs \<Longrightarrow> put xs k v ! i = xs ! i"
  by (simp add: put_def nth_append)

lemma put_length: "length xs \<le> length (put xs k v)"
  by (simp add: put_def)

lemma put_length_lt: "i < k \<Longrightarrow> i < length (put xs k v) \<longleftrightarrow> i < length xs"
  by (auto simp: put_def)

lemma length_put_ge: "k \<le> length xs \<Longrightarrow> k < length (put xs k v)"
  by (simp add: put_def)

lemma read_field_write_field:
  assumes "i \<le> simulation_index ds"
  shows "read_field i name (write_field j name' v ds) = read_field i name ds"
proof (cases "0 \<le> i \<and> j = simulation_index ds + 1 \<and> name' = name")
  case True
  then have lt: "nat i < nat j" using assms by simp
  show ?thesis
    using True lt by (simp add: read_field_def write_field_def put_length_lt put_nth)
next
  case False
  then show ?thesis
    by (auto simp: read_field_def write_field_def)
qed

lemma read_field_commit_record:
  "i \<le> simulation_index ds \<Longrightarrow> read_field i name (commit_record ds) = read_field i name ds"
  by (simp add: read_field_def commit_record_def)

lemma read_field_apply_op:
  "i \<le> simulation_index ds \<Longrightarrow> read_field i name (apply_op op ds) = read_field i name ds"
  by (cases op) (simp_all add: read_field_write_field read_field_commit_record begin_record_def)

lemma read_field_run_ops:
  "i \<le> simulation_index ds \<Longrightarrow> read_field i name (run_ops ops ds) = read_field i name ds"
proof (induction ops arbitrary: ds)
  case Nil
  then show ?case by simp
next
  case (Cons op ops)
  have "i \<le> simulation_index (apply_op op ds)"
    using Cons.prems simulation_index_apply_op [of ds op] by linarith
  then show ?case
    using Cons.IH [of "apply_op op ds"] Cons.prems by (simp add: read_field_apply_op)
qed

lemma read_field_in_range:
  "store_inv ds \<Longrightarrow> 0 \<le> i \<Longrightarrow> i \<le> simulation_index ds \<Longrightarrow>
   read_field i name ds = Inr (series ds name ! nat i)"
  using store_inv_length [of ds name] by (simp add: read_field_def)

lemma upto_1_3: "[1..3] = [1, 2, 3 :: int]"
  by (simp add: upto_rec1)

lemma store_inv_scenario: "store_inv scenario_store"
  by (simp add: store_inv_def scenario_store_def all_series_def)

lemma store_inv_one_record: "store_inv one_record_store"
  by (simp add: store_inv_def one_record_store_def all_series_def)


text \<open>
  C5. In a store that satisfies its invariant, \<open>read_field i name\<close> fails with
  \<open>OutOfRangeError\<close> if and only if \<open>i > simulation_index\<close> or \<open>i < 0\<close>; for
  \<open>0 \<le> i \<le> simulation_index\<close> it returns a value, and every later call, after any
  sequence of producer calls whatever, returns the same value.
\<close>

theorem read_field_range_and_immutable:
  assumes "store_inv ds"
  shows "(read_field i name ds = Inl OutOfRangeError \<longleftrightarrow> i > simulation_index ds \<or> i < 0)
     \<and> (0 \<le> i \<and> i \<le> simulation_index ds \<longrightarrow>
          (\<exists>v. read_field i name ds = Inr v
             \<and> (\<forall>ops. read_field i name (run_ops ops ds) = Inr v)))"
proof (intro conjI impI)
  show "read_field i name ds = Inl OutOfRangeError \<longleftrightarrow> i > simulation_index ds \<or> i < 0"
    using store_inv_length [OF assms, of name] by (auto simp: read_field_def)
next
  assume r: "0 \<le> i \<and> i \<le> simulation_index ds"
  then have "read_field i name ds = Inr (series ds name ! nat i)"
    using assms by (simp add: read_field_in_range)
  moreover have "\<forall>ops. read_field i name (run_ops ops ds) = read_field i name ds"
    using r by (simp add: read_field_run_ops)
  ultimately show "\<exists>v. read_field i name ds = Inr v
      \<and> (\<forall>ops. read_field i name (run_ops ops ds) = Inr v)"
    by simp
qed

text \<open>C5 at a concrete input.\<close>

theorem read_field_range_and_immutable_witness:
  "store_inv scenario_store
   \<and> (0::int) \<le> 2 \<and> 2 \<le> simulation_index scenario_store
   \<and> read_field 2 Time scenario_store = Inr 2
   \<and> (\<forall>ops. read_field 2 Time (run_ops ops scenario_store) = Inr 2)
   \<and> read_field 5 Time scenario_store = Inl OutOfRangeError
   \<and> read_field (- 1) Time scenario_store = Inl OutOfRangeError"
proof -
  have r: "read_field 2 Time scenario_store = Inr 2"
    by (simp add: read_field_def scenario_store_def)
  have s: "simulation_index scenario_store = 4" by (simp add: scenario_store_def)
  show ?thesis
    using read_field_range_and_immutable [OF store_inv_scenario, of 2 Time]
      read_field_range_and_immutable [OF store_inv_scenario, of 5 Time]
      read_field_range_and_immutable [OF store_inv_scenario, of "- 1" Time]
      store_inv_scenario
    by (simp add: r s)
qed

text \<open>
  C7. No store operation decreases \<open>simulation_index\<close>, and of two observations of
  \<open>current_index()\<close> during a run of producer calls, after \<open>t1\<close> and after \<open>t2\<close>
  calls with \<open>t1 \<le> t2\<close>, the earlier is at most the later.
\<close>

theorem simulation_index_monotone:
  "current_index ds \<le> current_index (apply_op op ds)
   \<and> (t1 \<le> t2 \<longrightarrow>
        current_index (run_ops (take t1 ops) ds) \<le> current_index (run_ops (take t2 ops) ds))"
proof (intro conjI impI)
  show "current_index ds \<le> current_index (apply_op op ds)"
    by (simp add: current_index_def simulation_index_apply_op)
next
  assume le: "t1 \<le> t2"
  have "take t2 ops = take t1 ops @ drop t1 (take t2 ops)"
    using le by (metis append_take_drop_id min.absorb1 take_take)
  then have "run_ops (take t2 ops) ds = run_ops (drop t1 (take t2 ops)) (run_ops (take t1 ops) ds)"
    by (metis run_ops_append)
  then show "current_index (run_ops (take t1 ops) ds) \<le> current_index (run_ops (take t2 ops) ds)"
    by (simp add: current_index_def simulation_index_run_ops)
qed

text \<open>C7 at a concrete input.\<close>

theorem simulation_index_monotone_witness:
  "(1::nat) \<le> 3
   \<and> current_index (run_ops (take 1 one_record_ops) empty_store) = - 1
   \<and> current_index (run_ops (take 3 one_record_ops) empty_store) = 0
   \<and> current_index (run_ops (take 1 one_record_ops) empty_store)
       \<le> current_index (run_ops (take 3 one_record_ops) empty_store)"
  using simulation_index_monotone [of empty_store BeginRecord 1 3 one_record_ops]
  by (simp add: one_record_ops_def current_index_def empty_store_def begin_record_def
        write_field_def commit_record_def)

subsection \<open>The worker's record cycle\<close>

lemma producer_inv_init: "producer_inv (producer_init :: 'v producer)"
  by (simp add: producer_inv_def producer_init_def store_inv_def empty_store_def all_series_def)

lemma producer_inv_step:
  assumes "producer_inv p"
  shows "producer_inv (worker_step sample p)"
proof (cases "phase p")
  case Between
  then show ?thesis
    using assms
    by (simp add: producer_inv_def begin_record_def list_all_all_series set_all_series)
next
  case (Writing names)
  note W = this
  have inv: "store_inv (store p)" using assms by (simp add: producer_inv_def)
  have len: "simulation_index (store p) < int (length (series (store p) name))" for name
    using inv by (rule store_inv_length)
  have done_: "name \<in> set names \<or> simulation_index (store p) + 1 < int (length (series (store p) name))" for name
    using assms W by (simp add: producer_inv_def list_all_all_series)
  show ?thesis
  proof (cases names)
    case Nil
    have "simulation_index (store p) + 1 < int (length (series (store p) name))" for name
      using done_ [of name] Nil by simp
    then show ?thesis
      using W Nil inv
      by (simp add: producer_inv_def store_inv_def commit_record_def list_all_all_series)
  next
    case (Cons n ns)
    let ?k = "nat (simulation_index (store p) + 1)"
    have k: "?k \<le> length (series (store p) n)"
      using len [of n] by linarith
    have new: "simulation_index (store p) + 1 < int (length (put (series (store p) n) ?k (sample n)))"
      using length_put_ge [OF k, of "sample n"] inv by (simp add: store_inv_def)
    have keep: "simulation_index (store p) < int (length (put (series (store p) n) ?k (sample n)))"
      using new by linarith
    show ?thesis
      using W Cons inv len new keep done_
      by (auto simp: producer_inv_def store_inv_def write_field_def current_index_def
            list_all_all_series)
  qed
qed

lemma producer_inv_steps:
  "producer_inv p \<Longrightarrow> producer_inv (worker_steps samples p)"
  by (induction samples arbitrary: p) (simp_all add: producer_inv_step del: worker_step.simps)

lemma read_next_fails: "read_field (current_index ds + 1) name ds = Inl OutOfRangeError"
  by (simp add: read_field_def current_index_def)

lemma index_moves_only_in_commit:
  assumes "producer_inv p"
    and "current_index (store (worker_step sample p)) \<noteq> current_index (store p)"
  shows "phase p = Writing []
     \<and> store (worker_step sample p) = commit_record (store p)
     \<and> (\<forall>name. nat (current_index (store p) + 1) < length (series (store p) name))"
proof (cases "phase p")
  case Between
  then show ?thesis using assms(2) by (simp add: begin_record_def)
next
  case (Writing names)
  show ?thesis
  proof (cases names)
    case Nil
    have "simulation_index (store p) + 1 < int (length (series (store p) name))" for name
      using assms(1) Writing Nil by (simp add: producer_inv_def list_all_all_series)
    then have "nat (current_index (store p) + 1) < length (series (store p) name)" for name
      using assms(1) by (simp add: current_index_def producer_inv_def store_inv_def nat_less_iff)
    then show ?thesis using Writing Nil by simp
  next
    case (Cons n ns)
    then show ?thesis using assms(2) Writing
      by (simp add: write_field_def current_index_def)
  qed
qed

lemma becomes_readable_only_by_commit:
  assumes "read_field k name ds = Inl OutOfRangeError"
    and "read_field k name (apply_op op ds) \<noteq> Inl OutOfRangeError"
  shows "op = CommitRecord \<and> k = simulation_index ds + 1"
proof (cases op)
  case BeginRecord
  then show ?thesis using assms by (simp add: begin_record_def)
next
  case (WriteField j name' v)
  show ?thesis
  proof (cases "k \<le> simulation_index ds")
    case True
    then show ?thesis using assms WriteField by (simp add: read_field_write_field)
  next
    case False
    have "simulation_index (write_field j name' v ds) = simulation_index ds"
      by (simp add: write_field_def)
    then have "read_field k name (write_field j name' v ds) = Inl OutOfRangeError"
      using False by (simp add: read_field_def)
    then show ?thesis using assms(2) WriteField by simp
  qed
next
  case CommitRecord
  then show ?thesis using assms
    by (auto simp: read_field_def commit_record_def split: if_splits)
qed

lemma eight_steps:
  "worker_steps eight_samples producer_init =
     \<lparr> store = \<lparr> series = (\<lambda>_. [7]), simulation_index = - 1 \<rparr>, phase = Writing [] \<rparr>"
proof -
  have "(\<lambda>_. [])(Time := [7::int], Distance := [7], Velocity := [7], TrackMaxVelocity := [7],
          Acceleration := [7], MotorPower := [7], BatteryPower := [7]) = (\<lambda>_. [7])"
  proof
    fix name :: series_name
    show "((\<lambda>_. [])(Time := [7::int], Distance := [7], Velocity := [7], TrackMaxVelocity := [7],
          Acceleration := [7], MotorPower := [7], BatteryPower := [7])) name = [7]"
      by (cases name) simp_all
  qed
  then show ?thesis
    by (simp add: eight_samples_def producer_init_def empty_store_def all_series_def
          begin_record_def write_field_def current_index_def put_def)
qed

text \<open>
  C8. The worker makes one store call per step and a reader may look at the store between
  any two steps. In every state \<open>p\<close> the worker reaches from the empty store: no read at
  position \<open>simulation_index + 1\<close> succeeds; every position up to \<open>simulation_index\<close>
  is complete in all series; the index moves only in the step that is
  \<open>commit_record\<close>, and then all series hold their value for the new position. For any
  store and any producer call: a read that failed before the call and succeeds after it
  is a read of position \<open>simulation_index + 1\<close>, and the call was \<open>commit_record\<close>.
\<close>

theorem visibility_only_by_commit:
  assumes "p = worker_steps samples producer_init"
  shows "read_field (current_index (store p) + 1) name (store p) = Inl OutOfRangeError
     \<and> store_inv (store p)
     \<and> (current_index (store (worker_step sample p)) \<noteq> current_index (store p) \<longrightarrow>
          phase p = Writing []
          \<and> store (worker_step sample p) = commit_record (store p)
          \<and> (\<forall>n. nat (current_index (store p) + 1) < length (series (store p) n)))
     \<and> (read_field k name ds = Inl OutOfRangeError
          \<and> read_field k name (apply_op op ds) \<noteq> Inl OutOfRangeError \<longrightarrow>
          op = CommitRecord \<and> k = simulation_index ds + 1)"
proof -
  have inv: "producer_inv p"
    using assms by (simp add: producer_inv_steps producer_inv_init)
  show ?thesis
    using inv index_moves_only_in_commit [OF inv, of sample]
      becomes_readable_only_by_commit [of k name ds op]
    by (simp add: read_next_fails producer_inv_def del: worker_step.simps)
qed

text \<open>C8 at a concrete input.\<close>

theorem visibility_only_by_commit_witness:
  "phase (worker_steps eight_samples producer_init) = Writing []
   \<and> store_inv (store (worker_steps eight_samples producer_init))
   \<and> read_field 0 Time (store (worker_steps eight_samples producer_init)) = Inl OutOfRangeError
   \<and> current_index (store (worker_step (\<lambda>_. 7) (worker_steps eight_samples producer_init)))
       \<noteq> current_index (store (worker_steps eight_samples producer_init))
   \<and> store (worker_step (\<lambda>_. 7) (worker_steps eight_samples producer_init))
       = commit_record (store (worker_steps eight_samples producer_init))
   \<and> read_field 0 Time (apply_op CommitRecord (store (worker_steps eight_samples producer_init)))
       = Inr 7"
proof -
  let ?p = "worker_steps eight_samples producer_init"
  have a: "current_index (store (worker_step (\<lambda>_. 7) ?p)) \<noteq> current_index (store ?p)"
    by (simp add: eight_steps commit_record_def current_index_def)
  have b: "read_field 0 Time (store ?p) = Inl OutOfRangeError"
    by (simp add: eight_steps read_field_def)
  have c: "read_field 0 Time (apply_op CommitRecord (store ?p)) = Inr 7"
    by (simp add: eight_steps read_field_def commit_record_def)
  show ?thesis
    using visibility_only_by_commit [where samples = eight_samples and sample = "\<lambda>_. 7" and k = 0
        and name = Time and ds = "store ?p" and op = CommitRecord, OF refl]
      a b c
    by (simp del: worker_step.simps)
qed

subsection \<open>The refresh handler\<close>

lemma bind_act_Inr: "bind_act (Inr a, l) f = (fst (f a), l @ snd (f a))"
  by (simp add: bind_act_def split: prod.splits)

lemma bind_act_Inl: "bind_act (Inl e, l) f = (Inl e, l)"
  by (simp add: bind_act_def)

lemma snd_bind_act:
  "snd (bind_act m f) = (case fst m of Inl e \<Rightarrow> snd m | Inr a \<Rightarrow> snd m @ snd (f a))"
  by (simp add: bind_act_def split: prod.splits sum.splits)

lemma fst_bind_act:
  "fst (bind_act m f) = (case fst m of Inl e \<Rightarrow> Inl e | Inr a \<Rightarrow> fst (f a))"
  by (simp add: bind_act_def split: prod.splits sum.splits)

lemmas getters =
  get_time_at_index_def get_distance_at_index_def get_velocity_at_index_def
  get_track_max_velocity_at_index_def get_acceleration_at_index_def
  get_motor_power_at_index_def get_battery_power_at_index_def

lemma x_upto: "map (\<lambda>z. z + 1) (range_py n) = [1..n]"
proof -
  have "map (\<lambda>z. z + 1) [a..b] = [a + 1..b + 1]" for a b :: int
  proof (induction a b rule: upto.induct)
    case (1 i j)
    show ?case
    proof (cases "i \<le> j")
      case True
      then show ?thesis using 1 by (simp add: upto_rec1 [of i j] upto_rec1 [of "i + 1" "j + 1"])
    next
      case False
      then show ?thesis by simp
    qed
  qed
  from this [of 0 "n - 1"] show ?thesis by (simp add: range_py_def)
qed

lemma refresh_fields_ok:
  assumes "store_inv ds" "0 \<le> c" "c \<le> simulation_index ds"
  shows "refresh_fields ds c =
    (Inr (),
     [Call_get_at_index Time c, SetValue spinboxTime (read_at ds Time c),
      Call_get_at_index Distance c, SetValue spinboxDistance (read_at ds Distance c),
      Call_get_at_index Velocity c, SetValue spinboxVelocity (read_at ds Velocity c),
      Call_get_at_index Acceleration c, SetValue spinboxAcceleration (read_at ds Acceleration c),
      Call_get_at_index MotorPower c, SetValue spinboxMotorPower (read_at ds MotorPower c),
      Call_get_at_index BatteryPower c, SetValue spinboxBatteryPower (read_at ds BatteryPower c)])"
  using assms
  by (simp add: refresh_fields_def getters read_field_in_range call_def gui_def bind_act_Inr
        read_at_def)

lemma refresh_fields_calls:
  "store_inv ds \<Longrightarrow> 0 \<le> c \<Longrightarrow> c \<le> simulation_index ds \<Longrightarrow>
   refresh_fields ds c = (Inr (), fields_calls ds c)"
  by (simp add: refresh_fields_ok fields_calls_def)

lemma refresh_fields_fails:
  assumes "c < 0"
  shows "refresh_fields ds c = (Inl OutOfRangeError, [Call_get_at_index Time c])"
  using assms
  by (simp add: refresh_fields_def getters read_field_def call_def bind_act_Inl)

lemma loop_body_ok:
  assumes "store_inv ds" "0 \<le> z" "z \<le> simulation_index ds"
  shows "loop_body ds z ls = (Inr (appended ds [z] ls), loop_calls z)"
  using assms
  by (simp add: loop_body_def getters read_field_in_range call_def ret_def bind_act_Inr
        read_at_def appended_def loop_calls_def)

lemma appended_Cons: "appended ds zs (appended ds [z] ls) = appended ds (z # zs) ls"
  by (simp add: appended_def)

lemma appended_Nil: "appended ds [] ls = ls"
  by (simp add: appended_def)

lemma build_lists_ok:
  assumes "store_inv ds" "\<forall>z \<in> set zs. 0 \<le> z \<and> z \<le> simulation_index ds"
  shows "build_lists ds zs ls = (Inr (appended ds zs ls), concat (map loop_calls zs))"
  using assms(2)
proof (induction zs arbitrary: ls)
  case Nil
  then show ?case by (simp add: ret_def appended_Nil)
next
  case (Cons z zs)
  have b: "loop_body ds z ls = (Inr (appended ds [z] ls), loop_calls z)"
    using Cons.prems assms(1) by (simp add: loop_body_ok)
  have r: "build_lists ds zs (appended ds [z] ls) =
      (Inr (appended ds (z # zs) ls), concat (map loop_calls zs))"
    using Cons.IH [of "appended ds [z] ls"] Cons.prems by (simp add: appended_Cons)
  show ?case by (simp add: b r bind_act_Inr)
qed

lemma plots_of_append: "plots_of p (xs @ ys) = plots_of p xs @ plots_of p ys"
  by (induction p xs rule: plots_of.induct) simp_all



lemma refresh_plots_ok: "fst (refresh_plots cb x ls) = Inr ()"
  by (simp add: refresh_plots_def gui_def bind_act_Inr)


lemma refresh_plots_p6:
  "plots_of p6 (snd (refresh_plots cb x ls)) =
     (if checkboxBatteryPower cb then [(x, l_battery_power ls)] else [])"
  by (simp add: refresh_plots_def gui_def bind_act_Inr plots_of_append)

lemma read_indices_append: "read_indices (xs @ ys) = read_indices xs @ read_indices ys"
  by (induction xs rule: read_indices.induct) simp_all

lemma read_indices_loop_calls: "set (read_indices (concat (map loop_calls zs))) = set zs"
  by (induction zs) (auto simp: read_indices_append loop_calls_def)

lemma read_indices_fields: "set (read_indices (fields_calls ds c)) = {c}"
  by (simp add: fields_calls_def)

lemma read_indices_plots: "read_indices (snd (refresh_plots cb x ls)) = []"
  by (simp add: refresh_plots_def gui_def bind_act_Inr read_indices_append)

lemma index_queries_append: "index_queries (xs @ ys) = index_queries xs @ index_queries ys"
  by (simp add: index_queries_def)

lemma index_queries_plots: "index_queries (snd (refresh_plots cb x ls)) = []"
  by (simp add: refresh_plots_def gui_def bind_act_Inr index_queries_def)

lemma signalPlotRefresh_ok:
  assumes "store_inv ds" "1 \<le> simulation_index ds"
  shows "signalPlotRefresh ds cb =
    (Inr (),
     [Call_get_simulation_index, SetText (simulation_index ds - 1)]
     @ fields_calls ds (simulation_index ds - 1)
     @ concat (map loop_calls [1..simulation_index ds - 1])
     @ snd (refresh_plots cb [1..simulation_index ds - 1]
              (appended ds [1..simulation_index ds - 1] empty_lists)))"
proof -
  let ?c = "simulation_index ds - 1"
  have f: "refresh_fields ds ?c = (Inr (), fields_calls ds ?c)"
    using assms by (simp add: refresh_fields_calls)
  have "\<forall>z \<in> set [1..?c]. 0 \<le> z \<and> z \<le> simulation_index ds"
    by auto
  then have b: "build_lists ds [1..?c] empty_lists =
      (Inr (appended ds [1..?c] empty_lists), concat (map loop_calls [1..?c]))"
    using assms(1) by (rule build_lists_ok [rotated])
  have p: "refresh_plots cb x ls = (Inr (), snd (refresh_plots cb x ls))" for x and ls :: "'a plot_lists"
    using refresh_plots_ok [of cb x ls] by (metis prod.collapse)
  show ?thesis
    unfolding signalPlotRefresh_def get_simulation_index_def current_index_def Let_def x_upto
    by (simp add: call_def gui_def bind_act_Inr f b refresh_plots_ok)
qed

lemma signalPlotRefresh_fails:
  assumes "simulation_index ds < 1"
  shows "signalPlotRefresh ds cb =
    (Inl OutOfRangeError,
     [Call_get_simulation_index, SetText (simulation_index ds - 1),
      Call_get_at_index Time (simulation_index ds - 1)])"
proof -
  have f: "refresh_fields ds (simulation_index ds - 1) =
      (Inl OutOfRangeError, [Call_get_at_index Time (simulation_index ds - 1)])"
    using assms by (simp add: refresh_fields_fails)
  show ?thesis
    unfolding signalPlotRefresh_def get_simulation_index_def current_index_def Let_def
    by (simp add: call_def gui_def bind_act_Inr bind_act_Inl f)
qed


lemma quiet_Nil: "quiet k []"
  by (simp add: quiet_def index_queries_def)

lemma quiet_append: "quiet k xs \<Longrightarrow> quiet k ys \<Longrightarrow> quiet k (xs @ ys)"
  by (simp add: quiet_def index_queries_def read_indices_append plots_of_append)

lemma quiet_bind:
  assumes "quiet k (snd m)" and "\<And>a. quiet k (snd (f a))"
  shows "quiet k (snd (bind_act m f))"
  using assms by (simp add: snd_bind_act quiet_append split: sum.splits)

lemma quiet_read: "i \<le> k \<Longrightarrow> quiet k (snd (call (Call_get_at_index name i) r))"
  by (simp add: quiet_def call_def index_queries_def)

lemma quiet_SetValue: "quiet k (snd (gui (SetValue s v)))"
  by (simp add: quiet_def gui_def index_queries_def)

lemma quiet_ret: "quiet k (snd (ret a))"
  by (simp add: ret_def quiet_Nil)

lemma quiet_refresh_fields: "quiet c (snd (refresh_fields ds c))"
  unfolding refresh_fields_def
  by (intro quiet_bind quiet_read quiet_SetValue order_refl)

lemma quiet_loop_body: "z \<le> k \<Longrightarrow> quiet k (snd (loop_body ds z ls))"
  unfolding loop_body_def
  by (intro quiet_bind quiet_read quiet_ret)

lemma quiet_build_lists:
  "\<forall>z \<in> set zs. z \<le> k \<Longrightarrow> quiet k (snd (build_lists ds zs ls))"
proof (induction zs arbitrary: ls)
  case Nil
  then show ?case by (simp add: quiet_ret)
next
  case (Cons z zs)
  show ?case
    unfolding build_lists.simps
  proof (rule quiet_bind)
    show "quiet k (snd (loop_body ds z ls))"
      using Cons.prems by (simp add: quiet_loop_body)
  next
    fix a show "quiet k (snd (build_lists ds zs a))"
      using Cons.prems by (simp add: Cons.IH)
  qed
qed

lemma signalPlotRefresh_log:
  "\<exists>l1 l2 l3. snd (signalPlotRefresh ds cb) =
       [Call_get_simulation_index, SetText (get_simulation_index ds - 1)] @ l1 @ l2 @ l3
     \<and> quiet (get_simulation_index ds - 1) l1
     \<and> quiet (get_simulation_index ds - 1) l2
     \<and> index_queries l3 = [] \<and> read_indices l3 = []"
proof -
  let ?c = "get_simulation_index ds - 1"
  let ?x = "map (\<lambda>z. z + 1) (range_py ?c)"
  have q1: "quiet ?c (snd (refresh_fields ds ?c))" by (rule quiet_refresh_fields)
  have "\<forall>z \<in> set ?x. z \<le> ?c" by (simp add: x_upto)
  then have q2: "quiet ?c (snd (build_lists ds ?x empty_lists))" by (rule quiet_build_lists)
  have s: "snd (signalPlotRefresh ds cb) =
      [Call_get_simulation_index, SetText ?c]
      @ (case fst (refresh_fields ds ?c) of
           Inl e \<Rightarrow> snd (refresh_fields ds ?c)
         | Inr u \<Rightarrow> snd (refresh_fields ds ?c)
             @ (case fst (build_lists ds ?x empty_lists) of
                  Inl e \<Rightarrow> snd (build_lists ds ?x empty_lists)
                | Inr ls \<Rightarrow> snd (build_lists ds ?x empty_lists) @ snd (refresh_plots cb ?x ls)))"
    unfolding signalPlotRefresh_def Let_def
    by (simp add: snd_bind_act call_def gui_def split: sum.splits)
  show ?thesis
  proof (cases "fst (refresh_fields ds ?c)")
    case (Inl e)
    show ?thesis
      apply (rule exI [of _ "snd (refresh_fields ds ?c)"])
      apply (rule exI [of _ "[]"])
      apply (rule exI [of _ "[]"])
      using q1 by (simp add: s Inl quiet_Nil index_queries_def)
  next
    case (Inr u)
    note f = this
    show ?thesis
    proof (cases "fst (build_lists ds ?x empty_lists)")
      case (Inl e)
      show ?thesis
        apply (rule exI [of _ "snd (refresh_fields ds ?c)"])
        apply (rule exI [of _ "snd (build_lists ds ?x empty_lists)"])
        apply (rule exI [of _ "[]"])
        using q1 q2 by (simp add: s f Inl index_queries_def)
    next
      case (Inr ls)
      show ?thesis
        apply (rule exI [of _ "snd (refresh_fields ds ?c)"])
        apply (rule exI [of _ "snd (build_lists ds ?x empty_lists)"])
        apply (rule exI [of _ "snd (refresh_plots cb ?x ls)"])
        using q1 q2 by (simp add: s f Inr index_queries_plots read_indices_plots)
    qed
  qed
qed

lemma loop_body_battery:
  "fst (loop_body ds z ls) = Inr ls' \<Longrightarrow> l_battery_power ls' = l_battery_power ls"
  unfolding loop_body_def
  by (auto simp: fst_bind_act call_def ret_def split: sum.splits)

lemma build_lists_battery:
  "fst (build_lists ds zs ls) = Inr ls' \<Longrightarrow> l_battery_power ls' = l_battery_power ls"
proof (induction zs arbitrary: ls)
  case Nil
  then show ?case by (simp add: ret_def)
next
  case (Cons z zs)
  from Cons.prems obtain a where a: "fst (loop_body ds z ls) = Inr a"
    and r: "fst (build_lists ds zs a) = Inr ls'"
    by (auto simp: fst_bind_act split: sum.splits)
  show ?case using Cons.IH [OF r] loop_body_battery [OF a] by simp
qed




text \<open>
  C3, as stated, fails after the first commit: on the store with one committed record
  the handler reads at index \<open>-1\<close>, unguarded, and the \<open>OutOfRangeError\<close> leaves it.
\<close>

theorem refresh_raises_on_first_record:
  "fst (signalPlotRefresh one_record_store battery_checked) = Inl OutOfRangeError
   \<and> read_indices (snd (signalPlotRefresh one_record_store battery_checked)) = [- 1]"
proof -
  have "simulation_index one_record_store < 1" by (simp add: one_record_store_def)
  from signalPlotRefresh_fails [OF this, of battery_checked]
  show ?thesis by (simp add: one_record_store_def)
qed

text \<open>
  C3, as amended. The handler has no local handling of store errors: an
  \<open>OutOfRangeError\<close> raised by a read ends the cycle and leaves the handler. On a store
  that satisfies its invariant this happens exactly when the store's index is below 1:
  the cycle's first read, at the index minus one, is then its only read, at a negative
  index. When the index is at least 1 the cycle completes and every read is at an index
  between 0 and the index minus one.
\<close>

theorem store_errors_propagate:
  assumes "store_inv ds"
  shows "(fst (signalPlotRefresh ds cb) = Inl OutOfRangeError \<longleftrightarrow> get_simulation_index ds < 1)
     \<and> (get_simulation_index ds < 1 \<longrightarrow>
          read_indices (snd (signalPlotRefresh ds cb)) = [get_simulation_index ds - 1])
     \<and> (1 \<le> get_simulation_index ds \<longrightarrow>
          fst (signalPlotRefresh ds cb) = Inr ()
          \<and> (\<forall>i \<in> set (read_indices (snd (signalPlotRefresh ds cb))).
                0 \<le> i \<and> i \<le> get_simulation_index ds - 1))"
proof (cases "simulation_index ds < 1")
  case True
  then show ?thesis
    by (simp add: signalPlotRefresh_fails get_simulation_index_def current_index_def)
next
  case False
  then have ge: "1 \<le> simulation_index ds" by simp
  show ?thesis
    using ge
    by (auto simp: signalPlotRefresh_ok [OF assms ge] get_simulation_index_def current_index_def
          read_indices_append read_indices_loop_calls read_indices_fields read_indices_plots)
qed

text \<open>C3, as amended, at a concrete input.\<close>

theorem store_errors_propagate_witness:
  "store_inv one_record_store
   \<and> get_simulation_index one_record_store < 1
   \<and> fst (signalPlotRefresh one_record_store battery_checked) = Inl OutOfRangeError
   \<and> read_indices (snd (signalPlotRefresh one_record_store battery_checked)) = [- 1]
   \<and> store_inv scenario_store
   \<and> 1 \<le> get_simulation_index scenario_store
   \<and> fst (signalPlotRefresh scenario_store battery_checked) = Inr ()
   \<and> list_all (\<lambda>i. 0 \<le> i \<and> i \<le> 3)
        (read_indices (snd (signalPlotRefresh scenario_store battery_checked)))"
proof -
  have a: "get_simulation_index one_record_store = 0"
    by (simp add: get_simulation_index_def current_index_def one_record_store_def)
  have b: "get_simulation_index scenario_store = 4"
    by (simp add: get_simulation_index_def current_index_def scenario_store_def)
  show ?thesis
    using store_errors_propagate [OF store_inv_one_record, of battery_checked]
      store_errors_propagate [OF store_inv_scenario, of battery_checked]
      store_inv_one_record store_inv_scenario
    by (simp add: a b list_all_iff)
qed

text \<open>
  C4. In every refresh cycle, completed or not, the store's index is queried exactly
  once, as the first call of the cycle and never again; every read of a series in the
  cycle is at an index below the value that query returned.
\<close>

theorem index_queried_once_per_cycle:
  "(\<exists>rest. snd (signalPlotRefresh ds cb) = Call_get_simulation_index # rest
        \<and> index_queries rest = [])
   \<and> length (index_queries (snd (signalPlotRefresh ds cb))) = 1
   \<and> (\<forall>i \<in> set (read_indices (snd (signalPlotRefresh ds cb))). i < get_simulation_index ds)"
proof -
  obtain l1 l2 l3 where
    s: "snd (signalPlotRefresh ds cb) =
       [Call_get_simulation_index, SetText (get_simulation_index ds - 1)] @ l1 @ l2 @ l3"
    and q1: "quiet (get_simulation_index ds - 1) l1"
    and q2: "quiet (get_simulation_index ds - 1) l2"
    and q3: "index_queries l3 = []" "read_indices l3 = []"
    using signalPlotRefresh_log [of ds cb] by blast
  have a: "index_queries (SetText (get_simulation_index ds - 1) # l1 @ l2 @ l3) = []"
    using q1 q2 q3 by (simp add: quiet_def index_queries_def)
  have b: "length (index_queries (snd (signalPlotRefresh ds cb))) = 1"
    using q1 q2 q3 by (simp add: s quiet_def index_queries_def)
  have c: "\<forall>i \<in> set (read_indices (snd (signalPlotRefresh ds cb))). i < get_simulation_index ds"
    using q1 q2 q3 by (auto simp: s quiet_def read_indices_append list_all_iff)
  show ?thesis using a b c by (simp add: s)
qed

text \<open>C4 at a concrete input.\<close>

theorem index_queried_once_per_cycle_witness:
  "length (index_queries (snd (signalPlotRefresh scenario_store battery_checked))) = 1
   \<and> list_all (\<lambda>i. i < 4) (read_indices (snd (signalPlotRefresh scenario_store battery_checked)))"
proof -
  have b: "get_simulation_index scenario_store = 4"
    by (simp add: get_simulation_index_def current_index_def scenario_store_def)
  show ?thesis
    using index_queried_once_per_cycle [of scenario_store battery_checked]
    by (simp add: b list_all_iff)
qed

lemma signalPlotRefresh_fst:
  "fst (signalPlotRefresh ds cb) =
     (case fst (refresh_fields ds (get_simulation_index ds - 1)) of
        Inl e \<Rightarrow> Inl e
      | Inr u \<Rightarrow>
          (case fst (build_lists ds [1..get_simulation_index ds - 1] empty_lists) of
             Inl e \<Rightarrow> Inl e
           | Inr ls \<Rightarrow> fst (refresh_plots cb [1..get_simulation_index ds - 1] ls)))"
  unfolding signalPlotRefresh_def Let_def x_upto
  by (simp add: fst_bind_act call_def gui_def split: sum.splits)

lemma signalPlotRefresh_snd:
  "snd (signalPlotRefresh ds cb) =
     [Call_get_simulation_index, SetText (get_simulation_index ds - 1)]
     @ (case fst (refresh_fields ds (get_simulation_index ds - 1)) of
          Inl e \<Rightarrow> snd (refresh_fields ds (get_simulation_index ds - 1))
        | Inr u \<Rightarrow> snd (refresh_fields ds (get_simulation_index ds - 1))
            @ (case fst (build_lists ds [1..get_simulation_index ds - 1] empty_lists) of
                 Inl e \<Rightarrow> snd (build_lists ds [1..get_simulation_index ds - 1] empty_lists)
               | Inr ls \<Rightarrow> snd (build_lists ds [1..get_simulation_index ds - 1] empty_lists)
                            @ snd (refresh_plots cb [1..get_simulation_index ds - 1] ls)))"
  unfolding signalPlotRefresh_def Let_def x_upto
  by (simp add: snd_bind_act call_def gui_def split: sum.splits)

lemma no_p6_in_fields: "plots_of p6 (snd (refresh_fields ds c)) = []"
  using quiet_refresh_fields [of c ds] by (simp add: quiet_def)

lemma no_p6_in_build_lists: "plots_of p6 (snd (build_lists ds [1..c] empty_lists)) = []"
proof -
  have "\<forall>z \<in> set [1..c]. z \<le> c" by simp
  then have "quiet c (snd (build_lists ds [1..c] empty_lists))" by (rule quiet_build_lists)
  then show ?thesis by (simp add: quiet_def)
qed

text \<open>
  C10, as stated, fails on the store with one committed record: with the Battery Power
  box checked the cycle raises at its first read and the battery power plot is not drawn
  at all.
\<close>

theorem battery_plot_not_drawn_on_first_record:
  "checkboxBatteryPower battery_checked
   \<and> fst (signalPlotRefresh one_record_store battery_checked) = Inl OutOfRangeError
   \<and> plots_of p6 (snd (signalPlotRefresh one_record_store battery_checked)) = []"
proof -
  have "simulation_index one_record_store < 1" by (simp add: one_record_store_def)
  from signalPlotRefresh_fails [OF this, of battery_checked]
  show ?thesis by (simp add: battery_checked_def)
qed

text \<open>
  C10, as amended. With the Battery Power box checked: a refresh cycle that completes
  draws the battery power plot once, with \<open>x = [1, ..., current_sim_index]\<close>, of length
  \<open>current_sim_index\<close> (the handler's snapshot: the store's index minus one), and with
  the empty list as \<open>y\<close>, so the lengths differ whenever \<open>current_sim_index\<close> is
  positive; a cycle that raises does not draw the battery power plot.
\<close>

theorem battery_power_plot_has_no_values:
  assumes "checkboxBatteryPower cb"
  shows "(fst (signalPlotRefresh ds cb) = Inr () \<longrightarrow>
            plots_of p6 (snd (signalPlotRefresh ds cb)) = [([1..get_simulation_index ds - 1], [])]
            \<and> length [1..get_simulation_index ds - 1] = nat (get_simulation_index ds - 1)
            \<and> (0 < get_simulation_index ds - 1 \<longrightarrow>
                 length [1..get_simulation_index ds - 1] \<noteq> length ([] :: 'v list)))
     \<and> (fst (signalPlotRefresh ds cb) \<noteq> Inr () \<longrightarrow>
            plots_of p6 (snd (signalPlotRefresh ds cb)) = [])"
proof (intro conjI impI)
  let ?c = "get_simulation_index ds - 1"
  assume ok: "fst (signalPlotRefresh ds cb) = Inr ()"
  then obtain u ls where u: "fst (refresh_fields ds ?c) = Inr u"
    and b: "fst (build_lists ds [1..?c] empty_lists) = Inr ls"
    unfolding signalPlotRefresh_fst by (auto split: sum.splits)
  have y: "l_battery_power ls = []"
    using build_lists_battery [OF b] by (simp add: empty_lists_def)
  show "plots_of p6 (snd (signalPlotRefresh ds cb)) = [([1..?c], [])]"
    using assms
    by (simp add: signalPlotRefresh_snd u b plots_of_append no_p6_in_fields
          no_p6_in_build_lists refresh_plots_p6 y)
next
  show "length [1..get_simulation_index ds - 1] = nat (get_simulation_index ds - 1)"
    by simp
next
  assume "0 < get_simulation_index ds - 1"
  then show "length [1..get_simulation_index ds - 1] \<noteq> length ([] :: 'v list)"
    by simp
next
  let ?c = "get_simulation_index ds - 1"
  assume bad: "fst (signalPlotRefresh ds cb) \<noteq> Inr ()"
  show "plots_of p6 (snd (signalPlotRefresh ds cb)) = []"
  proof (cases "fst (refresh_fields ds ?c)")
    case (Inl e)
    then show ?thesis
      by (simp add: signalPlotRefresh_snd no_p6_in_fields)
  next
    case (Inr u)
    note f = this
    show ?thesis
    proof (cases "fst (build_lists ds [1..?c] empty_lists)")
      case (Inl e)
      then show ?thesis
        by (simp add: signalPlotRefresh_snd f plots_of_append no_p6_in_fields
              no_p6_in_build_lists)
    next
      case (Inr ls)
      then have "fst (signalPlotRefresh ds cb) = Inr ()"
        by (simp add: signalPlotRefresh_fst f refresh_plots_ok)
      then show ?thesis using bad by simp
    qed
  qed
qed

text \<open>C10, as amended, at concrete inputs.\<close>

theorem battery_power_plot_has_no_values_witness:
  "checkboxBatteryPower battery_checked
   \<and> fst (signalPlotRefresh scenario_store battery_checked) = Inr ()
   \<and> plots_of p6 (snd (signalPlotRefresh scenario_store battery_checked)) = [([1, 2, 3], [])]
   \<and> 0 < get_simulation_index scenario_store - 1
   \<and> length [1, 2, 3 :: int] \<noteq> length ([] :: int list)
   \<and> fst (signalPlotRefresh one_record_store battery_checked) \<noteq> Inr ()
   \<and> plots_of p6 (snd (signalPlotRefresh one_record_store battery_checked)) = []"
proof -
  have b: "get_simulation_index scenario_store = 4"
    by (simp add: get_simulation_index_def current_index_def scenario_store_def)
  have c: "checkboxBatteryPower battery_checked" by (simp add: battery_checked_def)
  have "1 \<le> simulation_index scenario_store" by (simp add: scenario_store_def)
  then have d: "fst (signalPlotRefresh scenario_store battery_checked) = Inr ()"
    by (simp add: signalPlotRefresh_ok [OF store_inv_scenario])
  have "simulation_index one_record_store < 1" by (simp add: one_record_store_def)
  then have e: "fst (signalPlotRefresh one_record_store battery_checked) \<noteq> Inr ()"
    by (simp add: signalPlotRefresh_fails)
  from battery_power_plot_has_no_values [OF c, of scenario_store]
    battery_power_plot_has_no_values [OF c, of one_record_store]
  show ?thesis using c d e by (simp add: b upto_1_3)
qed

end
